theory Spec2Isabelle
  imports Main "HOL-Library.List_Lexorder" "HOL-Library.Sublist" "HOL-Library.Multiset"
begin

section \<open>Python strings\<close>

text \<open>
  A Python \<^verbatim>\<open>str\<close> is a sequence of Unicode code points, and slicing, \<^verbatim>\<open>strip\<close> and
  \<^verbatim>\<open>splitlines\<close> count code points. A character is therefore modelled by its code
  point and a string by the list of its code points. \<open>py\<close> writes an ASCII literal.
\<close>

type_synonym pychar = nat
type_synonym pystr = "pychar list"

definition py :: "string \<Rightarrow> pystr" where
  "py s = map of_char s"

text \<open>
  \<^verbatim>\<open>str.strip()\<close> without argument removes leading and trailing characters for which
  \<^verbatim>\<open>str.isspace()\<close> holds: U+0009..U+000D, U+001C..U+0020, U+0085, U+00A0, U+1680,
  U+2000..U+200A, U+2028, U+2029, U+202F, U+205F and U+3000.
\<close>

definition isspace :: "pychar \<Rightarrow> bool" where
  "isspace c \<longleftrightarrow>
     (9 \<le> c \<and> c \<le> 13) \<or> (28 \<le> c \<and> c \<le> 32) \<or> c = 133 \<or> c = 160 \<or> c = 5760 \<or>
     (8192 \<le> c \<and> c \<le> 8202) \<or> c = 8232 \<or> c = 8233 \<or> c = 8239 \<or> c = 8287 \<or> c = 12288"

definition strip :: "pystr \<Rightarrow> pystr" where
  "strip s = rev (dropWhile isspace (rev (dropWhile isspace s)))"

text \<open>
  \<^verbatim>\<open>str.splitlines()\<close> ends a line at LF, VT, FF, CR, CR LF (one boundary), FS, GS, RS,
  NEL, LS and PS; the boundaries are not kept, and no empty last line is produced.
  \<open>splitlines_from cur s\<close> reads \<open>s\<close> with \<open>cur\<close> the part of the current line already read.
\<close>

definition is_linebreak :: "pychar \<Rightarrow> bool" where
  "is_linebreak c \<longleftrightarrow>
     c = 10 \<or> c = 11 \<or> c = 12 \<or> c = 13 \<or> c = 28 \<or> c = 29 \<or> c = 30 \<or> c = 133 \<or>
     c = 8232 \<or> c = 8233"

fun splitlines_from :: "pystr \<Rightarrow> pystr \<Rightarrow> pystr list" where
  "splitlines_from cur [] = (if cur = [] then [] else [cur])"
| "splitlines_from cur (c # cs) =
     (if is_linebreak c
      then cur # splitlines_from [] (if c = 13 \<and> take 1 cs = [10] then tl cs else cs)
      else splitlines_from (cur @ [c]) cs)"

definition splitlines :: "pystr \<Rightarrow> pystr list" where
  "splitlines s = splitlines_from [] s"

section \<open>The notes table\<close>

text \<open>
  \<^verbatim>\<open>NoteDB\<close> wraps one SQLite table:
  \<^verbatim>\<open>notes(id INTEGER PRIMARY KEY AUTOINCREMENT, title TEXT, content TEXT, tags TEXT, created_at TEXT)\<close>.
  The table is the list of its rows in storage order, which for an
  \<^verbatim>\<open>INTEGER PRIMARY KEY\<close> is the order of the row ids; \<open>autoinc_seq\<close> is the counter
  that \<^verbatim>\<open>AUTOINCREMENT\<close> keeps in \<^verbatim>\<open>sqlite_sequence\<close> (the largest id ever handed
  out, 0 for a fresh table). The program only ever binds Python strings to the text
  columns, so a column holds a string and never NULL. Every method commits before it
  returns, so a method is a function from the table to the table.
\<close>

record note_row =
  note_id :: int
  title :: pystr
  content :: pystr
  tags :: pystr
  created_at :: pystr

record notedb =
  rows :: "note_row list"
  autoinc_seq :: int

definition empty_db :: notedb where
  "empty_db = \<lparr>rows = [], autoinc_seq = 0\<rparr>"

datatype error = OperationalError | IndexError

subsection \<open>SQL building blocks\<close>

text \<open>
  An \<^verbatim>\<open>AUTOINCREMENT\<close> insert takes the id one above the larger of the counter and
  the largest id in the table; when that exceeds the largest 64-bit signed integer the
  insert fails (\<^verbatim>\<open>SQLITE_FULL\<close>, raised by Python as \<^verbatim>\<open>sqlite3.OperationalError\<close>).
\<close>

definition max_rowid :: "note_row list \<Rightarrow> int" where
  "max_rowid rs = fold (\<lambda>r m. max (note_id r) m) rs 0"

definition next_rowid :: "notedb \<Rightarrow> int" where
  "next_rowid db = max (autoinc_seq db) (max_rowid (rows db)) + 1"

definition MAX_ROWID :: int where
  "MAX_ROWID = 9223372036854775807"

text \<open>
  \<^verbatim>\<open>ORDER BY created_at DESC\<close> names no second key. SQLite sorts the rows of the table
  scan with a stable merge sort on the key alone, so rows with equal \<open>created_at\<close> stay
  in scan order. Text compares with \<^verbatim>\<open>memcmp\<close> on UTF-8, which is the lexicographic
  order of the code points.
\<close>

definition order_by_created_at_desc :: "note_row list \<Rightarrow> note_row list" where
  "order_by_created_at_desc rs = rev (sort_key created_at (rev rs))"

text \<open>
  \<^verbatim>\<open>X LIKE P\<close> without \<^verbatim>\<open>ESCAPE\<close>: in the pattern \<^verbatim>\<open>%\<close> (37) matches any run of
  characters, \<^verbatim>\<open>_\<close> (95) matches any one character, and any other character matches
  itself, the ASCII letters without regard to case. \<open>like p s\<close> takes the pattern first.
\<close>

definition sql_lower :: "pychar \<Rightarrow> pychar" where
  "sql_lower c = (if 65 \<le> c \<and> c \<le> 90 then c + 32 else c)"

fun like :: "pystr \<Rightarrow> pystr \<Rightarrow> bool" where
  "like [] s \<longleftrightarrow> s = []"
| "like (p # ps) [] \<longleftrightarrow> p = 37 \<and> like ps []"
| "like (p # ps) (c # cs) \<longleftrightarrow>
     (if p = 37 then like ps (c # cs) \<or> like (p # ps) cs
      else (p = 95 \<or> sql_lower p = sql_lower c) \<and> like ps cs)"

subsection \<open>The methods of NoteDB\<close>

text \<open>
  \<open>add_note\<close> reads the clock (\<^verbatim>\<open>datetime.now().isoformat(sep=' ', timespec='seconds')\<close>);
  the reading is the first argument \<open>now\<close>.
\<close>

definition add_note :: "pystr \<Rightarrow> notedb \<Rightarrow> pystr \<Rightarrow> pystr \<Rightarrow> pystr \<Rightarrow> error + (int \<times> notedb)" where
  "add_note now db t c g =
     (let ts = now; nid = next_rowid db
      in if MAX_ROWID < nid then Inl OperationalError
         else Inr (nid,
                db\<lparr>rows := rows db @
                       [\<lparr>note_id = nid, title = t, content = c, tags = g, created_at = ts\<rparr>],
                   autoinc_seq := nid\<rparr>))"

definition update_note :: "notedb \<Rightarrow> int \<Rightarrow> pystr \<Rightarrow> pystr \<Rightarrow> pystr \<Rightarrow> notedb" where
  "update_note db nid t c g =
     db\<lparr>rows := map (\<lambda>r. if note_id r = nid then r\<lparr>title := t, content := c, tags := g\<rparr> else r)
                   (rows db)\<rparr>"

definition delete_note :: "notedb \<Rightarrow> int \<Rightarrow> notedb" where
  "delete_note db nid = db\<lparr>rows := filter (\<lambda>r. note_id r \<noteq> nid) (rows db)\<rparr>"

definition get_all_notes :: "notedb \<Rightarrow> note_row list" where
  "get_all_notes db = order_by_created_at_desc (rows db)"

definition get_note_by_id :: "notedb \<Rightarrow> int \<Rightarrow> note_row option" where
  "get_note_by_id db nid = find (\<lambda>r. note_id r = nid) (rows db)"

definition search_notes :: "notedb \<Rightarrow> pystr \<Rightarrow> note_row list" where
  "search_notes db keyword =
     (let kw = py ''%'' @ keyword @ py ''%''
      in order_by_created_at_desc
           (filter (\<lambda>r. like kw (title r) \<or> like kw (content r) \<or> like kw (tags r)) (rows db)))"

section \<open>The application\<close>

text \<open>
  The state of \<^verbatim>\<open>VoiceNoteApp\<close>: the database, the widgets that hold data, and the
  internal fields. \<open>content_text\<close> is the text of the \<^verbatim>\<open>tk.Text\<close> editor in front of the
  newline that Tk keeps at its end: \<^verbatim>\<open>get("1.0", tk.END)\<close> returns the text followed by
  that newline, and \<^verbatim>\<open>insert(tk.END, s)\<close> inserts in front of it. The listbox shows one
  line for each entry of \<open>notes_map\<close>; message boxes and the listbox lines are not part
  of the state.
\<close>

record app =
  db :: notedb
  title_entry :: pystr
  tags_entry :: pystr
  content_text :: pystr
  search_entry :: pystr
  status_var :: pystr
  current_note_id :: "int option"
  notes_map :: "int list"

definition load_notes :: "note_row list option \<Rightarrow> app \<Rightarrow> app" where
  "load_notes notes a =
     (let ns = (case notes of None \<Rightarrow> get_all_notes (db a) | Some ns \<Rightarrow> ns)
      in a\<lparr>notes_map := map note_id ns\<rparr>)"

definition app_search_notes :: "app \<Rightarrow> app" where
  "app_search_notes a =
     (let q = strip (search_entry a)
      in if q = [] then load_notes None a
         else load_notes (Some (search_notes (db a) q)) a)"

subsection \<open>Recording\<close>

text \<open>
  What \<^verbatim>\<open>recognizer.recognize_google(audio)\<close> does for one phrase: it returns a text,
  raises \<^verbatim>\<open>sr.UnknownValueError\<close>, or raises another exception \<open>e\<close>, of which the code
  uses \<^verbatim>\<open>str(e)\<close>.
\<close>

datatype recognition = Recognized pystr | UnknownValueError | OtherException pystr

text \<open>
  \<open>callback\<close> returns the text it schedules for \<open>append_text\<close> with
  \<^verbatim>\<open>root.after(0, ...)\<close>, or \<open>None\<close> when it schedules nothing.
\<close>

definition callback :: "recognition \<Rightarrow> pystr option" where
  "callback r =
     (let text = (case r of
                    Recognized t \<Rightarrow> t
                  | UnknownValueError \<Rightarrow> []
                  | OtherException e \<Rightarrow> py ''[error: '' @ e @ py '']'')
      in if text \<noteq> [] then Some text else None)"

definition append_text :: "pystr \<Rightarrow> app \<Rightarrow> app" where
  "append_text text a =
     (let cur = content_text a
      in (if strip (cur @ py [CHR 0x0A]) \<noteq> []
          then a\<lparr>content_text := cur @ py '' '' @ text\<rparr>
          else a\<lparr>content_text := cur @ text\<rparr>)
         \<lparr>status_var := py ''Transcribed a phrase''\<rparr>)"

text \<open>
  \<^verbatim>\<open>listen_in_background\<close> calls the callback once for each phrase, one phrase after
  the other on its listener thread, and Tk runs the scheduled calls in the order in which
  they were scheduled. A recording in which the phrases have the recognitions \<open>rs\<close>, and
  during which the user does not edit, therefore leaves the state \<open>listen rs a\<close>.
\<close>

fun listen :: "recognition list \<Rightarrow> app \<Rightarrow> app" where
  "listen [] a = a"
| "listen (r # rs) a =
     listen rs (case callback r of None \<Rightarrow> a | Some text \<Rightarrow> append_text text a)"

subsection \<open>Save\<close>

text \<open>
  \<open>save_note now a\<close> is \<open>Inl e\<close> when the exception \<open>e\<close> leaves \<^verbatim>\<open>save_note\<close> (the state
  is then as before), and \<open>Inr a'\<close> when it returns with the state \<open>a'\<close>.
\<close>

definition default_title :: "pystr \<Rightarrow> error + pystr" where
  "default_title c =
     (if strip c \<noteq> []
      then (case splitlines (strip c) of
              [] \<Rightarrow> Inl IndexError
            | line # _ \<Rightarrow> Inr (take 60 line))
      else Inr (py ''(no title)''))"

definition save_note :: "pystr \<Rightarrow> app \<Rightarrow> error + app" where
  "save_note now a =
     (let title_s = strip (title_entry a);
          tags_s = strip (tags_entry a);
          content_s = strip (content_text a @ py [CHR 0x0A])
      in if content_s = [] then Inr a
         else
           (case (if title_s = [] then default_title content_s else Inr title_s) of
              Inl e \<Rightarrow> Inl e
            | Inr title_s \<Rightarrow>
                (case current_note_id a of
                   None \<Rightarrow>
                     (case add_note now (db a) title_s content_s tags_s of
                        Inl e \<Rightarrow> Inl e
                      | Inr (nid, db') \<Rightarrow>
                          Inr (load_notes None
                                 (a\<lparr>db := db', current_note_id := Some nid,
                                    status_var := py ''Saved new note''\<rparr>)))
                 | Some cur \<Rightarrow>
                     Inr (load_notes None
                            (a\<lparr>db := update_note (db a) cur title_s content_s tags_s,
                               status_var := py ''Updated note''\<rparr>)))))"

section \<open>Sample states\<close>

text \<open>
  A table with three notes, the first two saved within the same second, and an
  application state over it with an empty editor. \<open>sample_db\<close> is what three calls of
  \<open>add_note\<close> make of the empty table (lemma \<open>sample_db_built\<close>).
\<close>

definition sample_db :: notedb where
  "sample_db =
     \<lparr>rows =
        [\<lparr>note_id = 1, title = py ''Groceries'', content = py ''milk and eggs'',
          tags = py ''home'', created_at = py ''2024-05-01 09:30:00''\<rparr>,
         \<lparr>note_id = 2, title = py ''Standup'', content = py ''ship the build'',
          tags = py ''work'', created_at = py ''2024-05-01 09:30:00''\<rparr>,
         \<lparr>note_id = 3, title = py ''Ideas'', content = py ''50% off sale'',
          tags = py ''shop'', created_at = py ''2024-05-01 09:31:12''\<rparr>],
      autoinc_seq = 3\<rparr>"

definition sample_app :: app where
  "sample_app =
     \<lparr>db = sample_db, title_entry = [], tags_entry = [], content_text = [],
      search_entry = [], status_var = py ''Ready'', current_note_id = None,
      notes_map = [3, 1, 2]\<rparr>"

text \<open>
  The state in which \<^verbatim>\<open>__init__\<close> leaves the application when the database file is new.
\<close>

definition fresh_app :: app where
  "fresh_app =
     \<lparr>db = empty_db, title_entry = [], tags_entry = [], content_text = [],
      search_entry = py ''search... (press Enter)'', status_var = py ''Ready'',
      current_note_id = None, notes_map = []\<rparr>"

section \<open>Properties used in the statements\<close>

text \<open>
  The ids of the table ascend in storage order. The empty table has the property and
  every method of \<open>NoteDB\<close> keeps it (lemmas \<open>ids_ascending_empty\<close>,
  \<open>ids_ascending_add\<close>, \<open>ids_ascending_update\<close>, \<open>ids_ascending_delete\<close>).
\<close>

definition ids_ascending :: "notedb \<Rightarrow> bool" where
  "ids_ascending d \<longleftrightarrow> sorted_wrt (<) (map note_id (rows d))"

text \<open>
  The order of \<^verbatim>\<open>ListAll\<close> in the words of the specification: \<open>x\<close> comes before \<open>y\<close>
  when \<open>x\<close> was created later, or at the same time with the higher id.
\<close>

definition spec_list_order :: "note_row \<Rightarrow> note_row \<Rightarrow> bool" where
  "spec_list_order x y \<longleftrightarrow>
     created_at y < created_at x \<or> (created_at y = created_at x \<and> note_id y < note_id x)"

text \<open>
  \<^verbatim>\<open>Search\<close> in the words of the specification: the notes of \<^verbatim>\<open>ListAll\<close>, in that
  order, for which the keyword is a substring of the title, the content or the tags.
  The specification leaves the case rule open, so the substring test \<open>sub\<close> is a
  parameter: \<open>contains\<close> compares characters as they are, \<open>contains_nocase\<close> compares
  the ASCII letters without regard to case.
\<close>

definition contains :: "pystr \<Rightarrow> pystr \<Rightarrow> bool" where
  "contains k s \<longleftrightarrow> sublist k s"

definition contains_nocase :: "pystr \<Rightarrow> pystr \<Rightarrow> bool" where
  "contains_nocase k s \<longleftrightarrow> sublist (map sql_lower k) (map sql_lower s)"

definition spec_search :: "(pystr \<Rightarrow> pystr \<Rightarrow> bool) \<Rightarrow> notedb \<Rightarrow> pystr \<Rightarrow> note_row list" where
  "spec_search sub d k =
     filter (\<lambda>r. sub k (title r) \<or> sub k (content r) \<or> sub k (tags r)) (get_all_notes d)"

section \<open>Facts about the building blocks\<close>

lemma py_newline: "py [CHR 0x0A] = [10]"
  by (simp add: py_def)

lemma py_percent: "py ''%'' = [37]"
  by (simp add: py_def)

lemma isspace_newline: "isspace 10"
  by (simp add: isspace_def)

lemma strip_Nil_iff: "strip s = [] \<longleftrightarrow> (\<forall>c\<in>set s. isspace c)"
proof -
  have "strip s = [] \<longleftrightarrow> (\<forall>c\<in>set (dropWhile isspace s). isspace c)"
    by (simp add: strip_def dropWhile_eq_Nil_conv)
  also have "\<dots> \<longleftrightarrow> dropWhile isspace s = []"
  proof
    assume a: "\<forall>c\<in>set (dropWhile isspace s). isspace c"
    show "dropWhile isspace s = []"
    proof (rule ccontr)
      assume n: "dropWhile isspace s \<noteq> []"
      then have "\<not> isspace (hd (dropWhile isspace s))" by (rule hd_dropWhile)
      moreover from n have "hd (dropWhile isspace s) \<in> set (dropWhile isspace s)" by simp
      ultimately show False using a by blast
    qed
  qed (auto dest: set_dropWhileD)
  also have "\<dots> \<longleftrightarrow> (\<forall>c\<in>set s. isspace c)"
    by (simp add: dropWhile_eq_Nil_conv)
  finally show ?thesis .
qed

lemma fold_max_ge: "m \<le> fold (\<lambda>r m. max (note_id r) m) rs m"
  by (induction rs arbitrary: m) (auto intro: order_trans [OF max.cobounded2])

lemma fold_max_mem: "r \<in> set rs \<Longrightarrow> note_id r \<le> fold (\<lambda>r m. max (note_id r) m) rs m"
proof (induction rs arbitrary: m)
  case Nil
  then show ?case by simp
next
  case (Cons x xs)
  show ?case
  proof (cases "r = x")
    case True
    have "note_id x \<le> max (note_id x) m" by simp
    also have "\<dots> \<le> fold (\<lambda>r m. max (note_id r) m) xs (max (note_id x) m)"
      by (rule fold_max_ge)
    finally show ?thesis using True by simp
  next
    case False
    with Cons show ?thesis by simp
  qed
qed

lemma max_rowid_ge: "r \<in> set rs \<Longrightarrow> note_id r \<le> max_rowid rs"
  unfolding max_rowid_def by (rule fold_max_mem)

lemma next_rowid_fresh: "r \<in> set (rows d) \<Longrightarrow> note_id r < next_rowid d"
  using max_rowid_ge [of r "rows d"] by (simp add: next_rowid_def)

lemma find_append: "find P (xs @ ys) = (case find P xs of None \<Rightarrow> find P ys | Some x \<Rightarrow> Some x)"
  by (induction xs) auto

lemma find_map_upd:
  "find (\<lambda>x. note_id x = nid)
     (map (\<lambda>x. if note_id x = nid then x\<lparr>title := t, content := c, tags := g\<rparr> else x) xs)
   = map_option (\<lambda>x. x\<lparr>title := t, content := c, tags := g\<rparr>) (find (\<lambda>x. note_id x = nid) xs)"
  by (induction xs) auto

lemma find_map_other:
  "j \<noteq> nid \<Longrightarrow>
   find (\<lambda>x. note_id x = j)
     (map (\<lambda>x. if note_id x = nid then x\<lparr>title := t, content := c, tags := g\<rparr> else x) xs)
   = find (\<lambda>x. note_id x = j) xs"
  by (induction xs) auto

lemma filter_map_other:
  "filter (\<lambda>x. note_id x \<noteq> nid)
     (map (\<lambda>x. if note_id x = nid then x\<lparr>title := t, content := c, tags := g\<rparr> else x) xs)
   = filter (\<lambda>x. note_id x \<noteq> nid) xs"
  by (induction xs) auto

lemma like_percent: "like [37] s"
  by (induction s) simp_all

lemma like_percent_percent: "like [37, 37] s"
  by (cases s) (simp_all add: like_percent)

lemma sample_db_built:
  "\<exists>d1 d2.
     add_note (py ''2024-05-01 09:30:00'') empty_db (py ''Groceries'') (py ''milk and eggs'')
       (py ''home'') = Inr (1, d1) \<and>
     add_note (py ''2024-05-01 09:30:00'') d1 (py ''Standup'') (py ''ship the build'')
       (py ''work'') = Inr (2, d2) \<and>
     add_note (py ''2024-05-01 09:31:12'') d2 (py ''Ideas'') (py ''50% off sale'')
       (py ''shop'') = Inr (3, sample_db)"
  by (simp add: add_note_def next_rowid_def max_rowid_def MAX_ROWID_def empty_db_def
      sample_db_def Let_def)

lemma mset_order_by: "mset (order_by_created_at_desc rs) = mset rs"
  by (simp add: order_by_created_at_desc_def)

lemma sorted_order_by:
  "sorted_wrt (\<lambda>x y. created_at y \<le> created_at x) (order_by_created_at_desc rs)"
proof -
  have "sorted (map created_at (sort_key created_at (rev rs)))"
    by (rule sorted_sort_key)
  then have "sorted_wrt (\<lambda>x y. created_at x \<le> created_at y) (sort_key created_at (rev rs))"
    by (simp add: sorted_wrt_map)
  then show ?thesis
    by (simp add: order_by_created_at_desc_def sorted_wrt_rev)
qed

lemma stable_order_by:
  "filter (\<lambda>r. created_at r = ts) (order_by_created_at_desc rs) =
   filter (\<lambda>r. created_at r = ts) rs"
  by (simp add: order_by_created_at_desc_def rev_filter [symmetric] sort_key_stable)

lemma filter_order_by:
  "filter P (order_by_created_at_desc rs) = order_by_created_at_desc (filter P rs)"
  by (simp add: order_by_created_at_desc_def rev_filter [symmetric] filter_sort)

lemma ids_ascending_filter:
  "sorted_wrt (<) (map note_id rs) \<Longrightarrow> sorted_wrt (<) (map note_id (filter P rs))"
  by (simp add: sorted_wrt_map sorted_wrt_filter)

lemma ids_ascending_empty: "ids_ascending empty_db"
  by (simp add: ids_ascending_def empty_db_def)

lemma ids_ascending_add:
  assumes "ids_ascending d" and "add_note now d t c g = Inr (nid, d')"
  shows "ids_ascending d'"
proof -
  from assms(2) have nid: "nid = next_rowid d"
    and d': "rows d' = rows d @
               [\<lparr>note_id = nid, title = t, content = c, tags = g, created_at = now\<rparr>]"
    by (auto simp: add_note_def Let_def split: if_splits)
  have "\<forall>r\<in>set (rows d). note_id r < nid"
    using next_rowid_fresh nid by simp
  with assms(1) show ?thesis
    by (simp add: ids_ascending_def d' sorted_wrt_append)
qed

lemma ids_ascending_update: "ids_ascending d \<Longrightarrow> ids_ascending (update_note d nid t c g)"
proof -
  have "map note_id (rows (update_note d nid t c g)) = map note_id (rows d)"
    by (simp add: update_note_def)
  then show "ids_ascending d \<Longrightarrow> ids_ascending (update_note d nid t c g)"
    by (simp add: ids_ascending_def)
qed

lemma ids_ascending_delete: "ids_ascending d \<Longrightarrow> ids_ascending (delete_note d nid)"
  by (simp add: ids_ascending_def delete_note_def ids_ascending_filter)

lemma strip_newline_Nil_iff: "strip (s @ py [CHR 0x0A]) = [] \<longleftrightarrow> (\<forall>c\<in>set s. isspace c)"
  by (simp add: strip_Nil_iff py_newline isspace_newline)

lemma content_append_text:
  "content_text (append_text text a) =
     (if \<forall>c\<in>set (content_text a). isspace c then content_text a @ text
      else content_text a @ py '' '' @ text)"
  by (simp add: append_text_def Let_def strip_newline_Nil_iff)

lemma listen_append: "listen (xs @ ys) a = listen ys (listen xs a)"
  by (induction xs arbitrary: a) simp_all

lemma callback_unknown: "callback UnknownValueError = None"
  by (simp add: callback_def)

lemma callback_other: "callback (OtherException e) = Some (py ''[error: '' @ e @ py '']'')"
  by (simp add: callback_def py_def)

lemma callback_recognized: "callback (Recognized t) = (if t = [] then None else Some t)"
  by (simp add: callback_def)

lemma strip_newline: "strip (s @ py [CHR 0x0A]) = strip s"
proof (cases "\<forall>c\<in>set s. isspace c")
  case True
  then have "strip (s @ py [CHR 0x0A]) = []"
    by (simp only: strip_newline_Nil_iff)
  moreover from True have "strip s = []"
    by (simp only: strip_Nil_iff)
  ultimately show ?thesis by simp
next
  case False
  then have "dropWhile isspace (s @ [10]) = dropWhile isspace s @ [10]"
    by (simp add: dropWhile_append)
  then show ?thesis
    by (simp add: strip_def py_newline isspace_newline)
qed

lemma last_dropWhile_neq: "dropWhile P xs \<noteq> [] \<Longrightarrow> last (dropWhile P xs) = last xs"
  by (induction xs) (auto split: if_splits)

lemma strip_ends:
  assumes "strip s \<noteq> []"
  shows "\<not> isspace (hd (strip s)) \<and> \<not> isspace (last (strip s))"
proof -
  let ?D = "dropWhile isspace s"
  let ?Z = "dropWhile isspace (rev ?D)"
  from assms have z: "?Z \<noteq> []" by (simp add: strip_def)
  have d: "?D \<noteq> []"
  proof
    assume "?D = []"
    then have "?Z = []" by (simp only: rev.simps dropWhile.simps)
    with z show False ..
  qed
  have "hd (strip s) = last ?Z"
    using z by (simp add: strip_def hd_rev)
  also have "\<dots> = last (rev ?D)"
    using z by (rule last_dropWhile_neq)
  also have "\<dots> = hd ?D"
    using d by (simp add: last_rev)
  finally have "\<not> isspace (hd (strip s))"
    using d hd_dropWhile [of isspace s] by simp
  moreover have "last (strip s) = hd ?Z"
    using z by (simp add: strip_def last_rev)
  then have "\<not> isspace (last (strip s))"
    using z hd_dropWhile [of isspace "rev ?D"] by simp
  ultimately show ?thesis by simp
qed

lemma strip_fixed:
  assumes "s \<noteq> []" and "\<not> isspace (hd s)" and "\<not> isspace (last s)"
  shows "strip s = s"
proof -
  from assms have 1: "dropWhile isspace s = s"
    by (cases s) auto
  from assms have "rev s \<noteq> []" and "\<not> isspace (hd (rev s))"
    by (simp_all add: hd_rev)
  then have 2: "dropWhile isspace (rev s) = rev s"
    by (cases "rev s") auto
  show ?thesis
    by (simp add: strip_def 1 2)
qed

lemma strip_strip: "strip (strip s) = strip s"
proof (cases "strip s = []")
  case True
  have "strip [] = []" by (simp add: strip_def)
  with True show ?thesis by simp
next
  case False
  with strip_ends [OF False] show ?thesis
    by (intro strip_fixed) simp_all
qed

lemma splitlines_from_first:
  "cur @ s \<noteq> [] \<Longrightarrow>
   \<exists>rest. splitlines_from cur s = (cur @ takeWhile (\<lambda>c. \<not> is_linebreak c) s) # rest"
proof (induction s arbitrary: cur)
  case Nil
  then show ?case by simp
next
  case (Cons c cs)
  show ?case
  proof (cases "is_linebreak c")
    case True
    then show ?thesis by simp
  next
    case False
    from Cons.IH [of "cur @ [c]"] obtain rest where
      "splitlines_from (cur @ [c]) cs = ((cur @ [c]) @ takeWhile (\<lambda>c. \<not> is_linebreak c) cs) # rest"
      by auto
    with False show ?thesis by simp
  qed
qed

lemma default_title_first_line:
  assumes "strip c \<noteq> []"
  shows "default_title c = Inr (take 60 (takeWhile (\<lambda>x. \<not> is_linebreak x) (strip c)))"
proof -
  from splitlines_from_first [of "[]" "strip c"] assms obtain rest where
    "splitlines (strip c) = takeWhile (\<lambda>x. \<not> is_linebreak x) (strip c) # rest"
    by (auto simp: splitlines_def)
  with assms show ?thesis
    by (simp add: default_title_def)
qed

lemma get_added_note:
  assumes "add_note now d t c g = Inr (nid, d')"
  shows "get_note_by_id d' nid =
      Some \<lparr>note_id = nid, title = t, content = c, tags = g, created_at = now\<rparr>"
proof -
  from assms have nid: "nid = next_rowid d"
    and d': "d' = d\<lparr>rows := rows d @
                 [\<lparr>note_id = nid, title = t, content = c, tags = g, created_at = now\<rparr>],
               autoinc_seq := nid\<rparr>"
    by (auto simp: add_note_def Let_def split: if_splits)
  have "find (\<lambda>r. note_id r = nid) (rows d) = None"
    using next_rowid_fresh [of _ d] nid by (fastforce simp: find_None_iff)
  then show ?thesis
    by (simp add: get_note_by_id_def d' find_append)
qed

lemma add_note_returns:
  "next_rowid d \<le> MAX_ROWID \<Longrightarrow> \<exists>d'. add_note now d t c g = Inr (next_rowid d, d')"
  by (simp add: add_note_def Let_def)

lemma get_updated_note:
  assumes "get_note_by_id d nid = Some r"
  shows "get_note_by_id (update_note d nid t c g) nid =
           Some \<lparr>note_id = nid, title = t, content = c, tags = g, created_at = created_at r\<rparr>"
proof -
  from assms have f: "find (\<lambda>x. note_id x = nid) (rows d) = Some r"
    by (simp add: get_note_by_id_def)
  then have "note_id r = nid"
    by (auto simp: find_Some_iff)
  then have r: "r\<lparr>title := t, content := c, tags := g\<rparr> =
      \<lparr>note_id = nid, title = t, content = c, tags = g, created_at = created_at r\<rparr>"
    by (cases r) simp
  show ?thesis
    by (simp add: get_note_by_id_def update_note_def find_map_upd f r)
qed

lemma db_load_notes: "db (load_notes ns a) = db a"
  and current_load_notes: "current_note_id (load_notes ns a) = current_note_id a"
  by (simp_all add: load_notes_def Let_def)

lemma like_percent_prefix: "like (37 # ps) s \<longleftrightarrow> (\<exists>s1 s2. s = s1 @ s2 \<and> like ps s2)"
proof (induction s)
  case Nil
  then show ?case by simp
next
  case (Cons c cs)
  show ?case
  proof
    assume "like (37 # ps) (c # cs)"
    then consider "like ps (c # cs)" | "like (37 # ps) cs" by auto
    then show "\<exists>s1 s2. c # cs = s1 @ s2 \<and> like ps s2"
    proof cases
      case 1
      then have "c # cs = [] @ (c # cs) \<and> like ps (c # cs)" by simp
      then show ?thesis by blast
    next
      case 2
      with Cons obtain s1 s2 where "cs = s1 @ s2" and "like ps s2" by blast
      then have "c # cs = (c # s1) @ s2 \<and> like ps s2" by simp
      then show ?thesis by blast
    qed
  next
    assume "\<exists>s1 s2. c # cs = s1 @ s2 \<and> like ps s2"
    then obtain s1 s2 where e: "c # cs = s1 @ s2" and l: "like ps s2" by blast
    show "like (37 # ps) (c # cs)"
    proof (cases s1)
      case Nil
      with e have "s2 = c # cs" by simp
      with l have "like ps (c # cs)" by simp
      then show ?thesis by simp
    next
      case (Cons x xs)
      with e have "cs = xs @ s2" by simp
      with l Cons.IH have "like (37 # ps) cs" by blast
      then show ?thesis by simp
    qed
  qed
qed

lemma like_plain_prefix:
  "\<forall>p\<in>set k. p \<noteq> 37 \<and> p \<noteq> 95 \<Longrightarrow>
   like (k @ ps) s \<longleftrightarrow> (\<exists>s1 s2. s = s1 @ s2 \<and> map sql_lower s1 = map sql_lower k \<and> like ps s2)"
proof (induction k arbitrary: s)
  case Nil
  then show ?case by simp
next
  case (Cons p k)
  then have p: "p \<noteq> 37" "p \<noteq> 95" and k: "\<forall>p\<in>set k. p \<noteq> 37 \<and> p \<noteq> 95"
    by simp_all
  show ?case
  proof (cases s)
    case Nil
    with p show ?thesis by simp
  next
    case (Cons c cs)
    have "like ((p # k) @ ps) (c # cs) \<longleftrightarrow> sql_lower p = sql_lower c \<and> like (k @ ps) cs"
      using p by simp
    also have "\<dots> \<longleftrightarrow> sql_lower p = sql_lower c \<and>
        (\<exists>s1 s2. cs = s1 @ s2 \<and> map sql_lower s1 = map sql_lower k \<and> like ps s2)"
      using Cons.IH [OF k] by simp
    also have "\<dots> \<longleftrightarrow> (\<exists>s1 s2. c # cs = s1 @ s2 \<and>
        map sql_lower s1 = map sql_lower (p # k) \<and> like ps s2)"
    proof
      assume "sql_lower p = sql_lower c \<and>
        (\<exists>s1 s2. cs = s1 @ s2 \<and> map sql_lower s1 = map sql_lower k \<and> like ps s2)"
      then obtain s1 s2 where "sql_lower p = sql_lower c" "cs = s1 @ s2"
        "map sql_lower s1 = map sql_lower k" "like ps s2" by blast
      then have "c # cs = (c # s1) @ s2 \<and> map sql_lower (c # s1) = map sql_lower (p # k) \<and>
        like ps s2" by simp
      then show "\<exists>s1 s2. c # cs = s1 @ s2 \<and> map sql_lower s1 = map sql_lower (p # k) \<and> like ps s2"
        by blast
    next
      assume "\<exists>s1 s2. c # cs = s1 @ s2 \<and> map sql_lower s1 = map sql_lower (p # k) \<and> like ps s2"
      then obtain s1 s2 where e: "c # cs = s1 @ s2"
        and m: "map sql_lower s1 = map sql_lower (p # k)" and l: "like ps s2" by blast
      from m obtain x xs where s1: "s1 = x # xs" by (cases s1) auto
      with e m l have "sql_lower p = sql_lower c \<and> cs = xs @ s2 \<and>
        map sql_lower xs = map sql_lower k \<and> like ps s2" by simp
      then show "sql_lower p = sql_lower c \<and>
        (\<exists>s1 s2. cs = s1 @ s2 \<and> map sql_lower s1 = map sql_lower k \<and> like ps s2)" by blast
    qed
    finally show ?thesis using Cons by simp
  qed
qed

lemma like_keyword_contains:
  assumes "\<forall>p\<in>set k. p \<noteq> 37 \<and> p \<noteq> 95"
  shows "like (py ''%'' @ k @ py ''%'') s \<longleftrightarrow> contains_nocase k s"
proof -
  have "like (py ''%'' @ k @ py ''%'') s \<longleftrightarrow> (\<exists>s1 s2. s = s1 @ s2 \<and> like (k @ [37]) s2)"
    by (simp add: py_percent like_percent_prefix)
  also have "\<dots> \<longleftrightarrow> (\<exists>s1 s3 s4. s = s1 @ s3 @ s4 \<and> map sql_lower s3 = map sql_lower k)"
    by (simp add: like_plain_prefix [OF assms] like_percent) blast
  also have "\<dots> \<longleftrightarrow> contains_nocase k s"
  proof
    assume "\<exists>s1 s3 s4. s = s1 @ s3 @ s4 \<and> map sql_lower s3 = map sql_lower k"
    then obtain s1 s3 s4 where "s = s1 @ s3 @ s4" "map sql_lower s3 = map sql_lower k" by blast
    then have "map sql_lower s = map sql_lower s1 @ map sql_lower k @ map sql_lower s4" by simp
    then show "contains_nocase k s"
      unfolding contains_nocase_def sublist_def by blast
  next
    assume "contains_nocase k s"
    then obtain ps ss where "map sql_lower s = ps @ map sql_lower k @ ss"
      unfolding contains_nocase_def sublist_def by blast
    then have "\<exists>s1 r. s = s1 @ r \<and> ps = map sql_lower s1 \<and>
        map sql_lower k @ ss = map sql_lower r"
      by (simp only: map_eq_append_conv)
    then obtain s1 r where s: "s = s1 @ r" and r: "map sql_lower k @ ss = map sql_lower r"
      by blast
    from r have "\<exists>s3 s4. r = s3 @ s4 \<and> map sql_lower k = map sql_lower s3 \<and>
        ss = map sql_lower s4"
      by (simp only: append_eq_map_conv)
    then obtain s3 s4 where "r = s3 @ s4" and "map sql_lower s3 = map sql_lower k"
      by auto
    with s have "s = s1 @ s3 @ s4 \<and> map sql_lower s3 = map sql_lower k" by simp
    then show "\<exists>s1 s3 s4. s = s1 @ s3 @ s4 \<and> map sql_lower s3 = map sql_lower k" by blast
  qed
  finally show ?thesis .
qed

lemma search_notes_plain_keyword:
  assumes "\<forall>p\<in>set k. p \<noteq> 37 \<and> p \<noteq> 95"
  shows "search_notes d k = spec_search contains_nocase d k"
  by (simp add: search_notes_def spec_search_def get_all_notes_def filter_order_by
      like_keyword_contains [OF assms] Let_def)

lemma search_notes_filter:
  "search_notes d k =
     filter (\<lambda>r. like (py ''%'' @ k @ py ''%'') (title r) \<or> like (py ''%'' @ k @ py ''%'') (content r) \<or>
                 like (py ''%'' @ k @ py ''%'') (tags r)) (get_all_notes d)"
  by (simp add: search_notes_def get_all_notes_def filter_order_by Let_def)

section \<open>The store\<close>

text \<open>
  C7. A note that \<open>add_note\<close> has created is found by \<open>get_note_by_id\<close> under the
  returned id, with the title, content and tags that were passed in (and the clock
  reading as \<open>created_at\<close>). \<open>add_note\<close> returns whenever the id it needs is a 64-bit
  integer.
\<close>

theorem create_then_get_by_id:
  "(next_rowid d \<le> MAX_ROWID \<longrightarrow> (\<exists>nid d'. add_note now d t c g = Inr (nid, d'))) \<and>
   (\<forall>nid d'. add_note now d t c g = Inr (nid, d') \<longrightarrow>
      get_note_by_id d' nid =
        Some \<lparr>note_id = nid, title = t, content = c, tags = g, created_at = now\<rparr>)"
proof (intro conjI allI impI)
  assume "next_rowid d \<le> MAX_ROWID"
  then show "\<exists>nid d'. add_note now d t c g = Inr (nid, d')"
    using add_note_returns by blast
next
  fix nid d'
  assume "add_note now d t c g = Inr (nid, d')"
  then show "get_note_by_id d' nid =
      Some \<lparr>note_id = nid, title = t, content = c, tags = g, created_at = now\<rparr>"
    by (rule get_added_note)
qed

theorem create_then_get_by_id_witness:
  "next_rowid sample_db \<le> MAX_ROWID \<and>
   (\<exists>d'. add_note (py ''2024-05-02 08:00:00'') sample_db (py ''Call'') (py ''call mum'')
            (py ''family'') = Inr (4, d') \<and>
         get_note_by_id d' 4 =
           Some \<lparr>note_id = 4, title = py ''Call'', content = py ''call mum'',
                 tags = py ''family'', created_at = py ''2024-05-02 08:00:00''\<rparr>)"
proof -
  have n: "next_rowid sample_db = 4"
    by (simp add: next_rowid_def max_rowid_def sample_db_def)
  then obtain d' where e:
    "add_note (py ''2024-05-02 08:00:00'') sample_db (py ''Call'') (py ''call mum'')
       (py ''family'') = Inr (4, d')"
    by (simp add: add_note_def MAX_ROWID_def Let_def)
  from create_then_get_by_id [of sample_db "py ''2024-05-02 08:00:00''" "py ''Call''"
      "py ''call mum''" "py ''family''"] e
  have "get_note_by_id d' 4 =
     Some \<lparr>note_id = 4, title = py ''Call'', content = py ''call mum'', tags = py ''family'',
           created_at = py ''2024-05-02 08:00:00''\<rparr>"
    by blast
  with n e show ?thesis
    by (auto simp: MAX_ROWID_def)
qed

text \<open>
  C8. After \<open>delete_note\<close> the id is not found, and \<open>delete_note\<close> on an id that is
  not in the table returns the table as it was. \<open>delete_note\<close> has no error result.
\<close>

theorem delete_then_get_by_id:
  "get_note_by_id (delete_note d nid) nid = None \<and>
   (get_note_by_id d nid = None \<longrightarrow> delete_note d nid = d)"
  by (simp add: get_note_by_id_def delete_note_def find_None_iff filter_id_conv)

theorem delete_then_get_by_id_witness:
  "get_note_by_id (delete_note sample_db 2) 2 = None \<and>
   get_note_by_id sample_db 7 = None \<and> delete_note sample_db 7 = sample_db"
proof -
  have h: "get_note_by_id sample_db 7 = None"
    by (simp add: get_note_by_id_def sample_db_def)
  from delete_then_get_by_id [of sample_db 2] delete_then_get_by_id [of sample_db 7] h
  show ?thesis by simp
qed

text \<open>
  C9. \<open>update_note\<close> on the id of a stored note replaces the title, content and tags
  of that note and nothing else: the note keeps its \<open>created_at\<close>, every other id is
  looked up as before, the rows with another id are the same rows in the same order,
  and no row is added or removed.
\<close>

theorem update_note_frame:
  assumes "get_note_by_id d nid = Some r"
  shows "get_note_by_id (update_note d nid t c g) nid =
           Some \<lparr>note_id = nid, title = t, content = c, tags = g, created_at = created_at r\<rparr> \<and>
         (\<forall>j. j \<noteq> nid \<longrightarrow> get_note_by_id (update_note d nid t c g) j = get_note_by_id d j) \<and>
         filter (\<lambda>x. note_id x \<noteq> nid) (rows (update_note d nid t c g)) =
           filter (\<lambda>x. note_id x \<noteq> nid) (rows d) \<and>
         map note_id (rows (update_note d nid t c g)) = map note_id (rows d) \<and>
         map created_at (rows (update_note d nid t c g)) = map created_at (rows d) \<and>
         autoinc_seq (update_note d nid t c g) = autoinc_seq d"
proof -
  from assms have 1: "get_note_by_id (update_note d nid t c g) nid =
           Some \<lparr>note_id = nid, title = t, content = c, tags = g, created_at = created_at r\<rparr>"
    by (rule get_updated_note)
  have 2: "\<forall>j. j \<noteq> nid \<longrightarrow> get_note_by_id (update_note d nid t c g) j = get_note_by_id d j"
    by (simp add: get_note_by_id_def update_note_def find_map_other)
  have 3: "filter (\<lambda>x. note_id x \<noteq> nid) (rows (update_note d nid t c g)) =
           filter (\<lambda>x. note_id x \<noteq> nid) (rows d)"
    by (simp add: update_note_def filter_map_other)
  have 4: "map note_id (rows (update_note d nid t c g)) = map note_id (rows d)"
    by (simp add: update_note_def)
  have 5: "map created_at (rows (update_note d nid t c g)) = map created_at (rows d)"
    by (simp add: update_note_def)
  have 6: "autoinc_seq (update_note d nid t c g) = autoinc_seq d"
    by (simp add: update_note_def)
  from 1 2 3 4 5 6 show ?thesis by blast
qed

theorem update_note_frame_witness:
  "get_note_by_id sample_db 2 =
     Some \<lparr>note_id = 2, title = py ''Standup'', content = py ''ship the build'',
           tags = py ''work'', created_at = py ''2024-05-01 09:30:00''\<rparr> \<and>
   get_note_by_id (update_note sample_db 2 (py ''Retro'') (py ''went well'') (py ''team'')) 2 =
     Some \<lparr>note_id = 2, title = py ''Retro'', content = py ''went well'', tags = py ''team'',
           created_at = py ''2024-05-01 09:30:00''\<rparr> \<and>
   get_note_by_id (update_note sample_db 2 (py ''Retro'') (py ''went well'') (py ''team'')) 1 =
     get_note_by_id sample_db 1"
proof -
  have h: "get_note_by_id sample_db 2 =
     Some \<lparr>note_id = 2, title = py ''Standup'', content = py ''ship the build'',
           tags = py ''work'', created_at = py ''2024-05-01 09:30:00''\<rparr>"
    by (simp add: get_note_by_id_def sample_db_def)
  from update_note_frame [OF h, of "py ''Retro''" "py ''went well''" "py ''team''"] h
  show ?thesis by simp
qed

text \<open>
  C3. Searching for the empty keyword gives the same rows in the same order as
  \<open>get_all_notes\<close>. The application strips the search entry first: when the entry is
  empty or blank, the list it shows holds the ids of \<open>get_all_notes\<close>.
\<close>

theorem search_empty_keyword:
  "search_notes d [] = get_all_notes d \<and>
   ((\<forall>c\<in>set (search_entry a). isspace c) \<longrightarrow>
      notes_map (app_search_notes a) = map note_id (get_all_notes (db a)))"
proof (intro conjI impI)
  show "search_notes d [] = get_all_notes d"
    by (simp add: search_notes_def get_all_notes_def py_percent like_percent_percent)
  assume "\<forall>c\<in>set (search_entry a). isspace c"
  then have "strip (search_entry a) = []"
    by (simp only: strip_Nil_iff)
  then show "notes_map (app_search_notes a) = map note_id (get_all_notes (db a))"
    by (simp add: app_search_notes_def load_notes_def)
qed

theorem search_empty_keyword_witness:
  "search_notes sample_db [] = get_all_notes sample_db \<and>
   notes_map (app_search_notes (sample_app\<lparr>search_entry := []\<rparr>)) =
     map note_id (get_all_notes sample_db) \<and>
   notes_map (app_search_notes (sample_app\<lparr>search_entry := py ''  ''\<rparr>)) =
     map note_id (get_all_notes sample_db)"
proof -
  have 1: "\<forall>c\<in>set (search_entry (sample_app\<lparr>search_entry := []\<rparr>)). isspace c"
    by simp
  have 2: "\<forall>c\<in>set (search_entry (sample_app\<lparr>search_entry := py ''  ''\<rparr>)). isspace c"
    by (simp add: py_def isspace_def)
  from search_empty_keyword [of sample_db "sample_app\<lparr>search_entry := []\<rparr>"]
    search_empty_keyword [of sample_db "sample_app\<lparr>search_entry := py ''  ''\<rparr>"] 1 2
  show ?thesis by (simp add: sample_app_def)
qed

text \<open>
  C2 at a keyword with a \<^verbatim>\<open>LIKE\<close> wildcard. \<open>search_notes\<close> puts the keyword into the
  pattern as it is, so \<^verbatim>\<open>_\<close> and \<^verbatim>\<open>%\<close> in it are read as wildcards. On the sample table
  the keyword \<^verbatim>\<open>_\<close> finds all three notes though no title, content or tags holds an
  underscore, and the keyword \<^verbatim>\<open>%\<close> finds all three though only note 3 holds a percent
  sign. For a keyword without these two characters \<open>search_notes\<close> is the search of the
  specification with \<open>contains_nocase\<close> (lemma \<open>search_notes_plain_keyword\<close>).
\<close>

theorem search_notes_wildcard_keyword:
  "map note_id (search_notes sample_db (py ''_'')) = [3, 1, 2] \<and>
   spec_search contains sample_db (py ''_'') = [] \<and>
   spec_search contains_nocase sample_db (py ''_'') = [] \<and>
   map note_id (search_notes sample_db (py ''%'')) = [3, 1, 2] \<and>
   map note_id (spec_search contains sample_db (py ''%'')) = [3] \<and>
   map note_id (spec_search contains_nocase sample_db (py ''%'')) = [3]"
  by (simp add: search_notes_def spec_search_def contains_def contains_nocase_def
      get_all_notes_def order_by_created_at_desc_def sample_db_def sql_lower_def py_def
      sublist_Cons_right prefix_Cons Let_def)

text \<open>
  C4, as the code has it. \<open>get_all_notes\<close> returns the rows of the table, each once,
  in descending order of \<open>created_at\<close>. The query names no second key: notes with the
  same \<open>created_at\<close> keep the order they have in the table, which is ascending id
  (lowest id first) in every table whose ids ascend.
\<close>

theorem get_all_notes_order:
  "mset (get_all_notes d) = mset (rows d) \<and>
   sorted_wrt (\<lambda>x y. created_at y \<le> created_at x) (get_all_notes d) \<and>
   (\<forall>ts. filter (\<lambda>r. created_at r = ts) (get_all_notes d) =
           filter (\<lambda>r. created_at r = ts) (rows d)) \<and>
   (ids_ascending d \<longrightarrow>
      (\<forall>ts. sorted_wrt (<) (map note_id (filter (\<lambda>r. created_at r = ts) (get_all_notes d)))))"
  by (simp add: get_all_notes_def mset_order_by sorted_order_by stable_order_by
      ids_ascending_def ids_ascending_filter)

theorem get_all_notes_order_witness:
  "ids_ascending sample_db \<and>
   map note_id (get_all_notes sample_db) = [3, 1, 2] \<and>
   sorted_wrt (<) (map note_id (filter (\<lambda>r. created_at r = py ''2024-05-01 09:30:00'')
      (get_all_notes sample_db)))"
proof -
  have h: "ids_ascending sample_db"
    by (simp add: ids_ascending_def sample_db_def)
  have g: "map note_id (get_all_notes sample_db) = [3, 1, 2]"
    by (simp add: get_all_notes_def order_by_created_at_desc_def sample_db_def py_def)
  from get_all_notes_order [of sample_db] h g show ?thesis by blast
qed

text \<open>
  C4 as the specification words it (highest id first among equal timestamps) fails on
  the sample table: notes 1 and 2 were created in the same second and are listed as 1, 2.
\<close>

theorem get_all_notes_ties_counterexample:
  "map note_id (get_all_notes sample_db) = [3, 1, 2] \<and>
   created_at (get_all_notes sample_db ! 1) = created_at (get_all_notes sample_db ! 2) \<and>
   \<not> sorted_wrt spec_list_order (get_all_notes sample_db)"
  by (simp add: get_all_notes_def order_by_created_at_desc_def sample_db_def py_def
      spec_list_order_def)

section \<open>Recording\<close>

text \<open>
  C6, as the code has it. \<open>append_text\<close> puts the fragment at the end of the editor and
  sets the status line; it changes nothing else. The fragment follows one space when the
  editor holds a character that is not whitespace, and follows the old text directly
  when the editor is empty or holds only whitespace. On an empty editor the result is the
  fragment alone.
\<close>

theorem append_text_separator:
  "append_text text a =
     a\<lparr>content_text :=
         (if \<forall>c\<in>set (content_text a). isspace c then content_text a @ text
          else content_text a @ py '' '' @ text),
       status_var := py ''Transcribed a phrase''\<rparr> \<and>
   (content_text a = [] \<longrightarrow> content_text (append_text text a) = text)"
  by (simp add: append_text_def Let_def strip_newline_Nil_iff)

theorem append_text_separator_witness:
  "content_text (append_text (py ''world'') (fresh_app\<lparr>content_text := py ''hello''\<rparr>)) =
     py ''hello world'' \<and>
   content_text (append_text (py ''world'') fresh_app) = py ''world'' \<and>
   content_text (append_text (py ''world'') (fresh_app\<lparr>content_text := [32, 10]\<rparr>)) =
     [32, 10] @ py ''world''"
  using append_text_separator [of "py ''world''" "fresh_app\<lparr>content_text := py ''hello''\<rparr>"]
    append_text_separator [of "py ''world''" fresh_app]
    append_text_separator [of "py ''world''" "fresh_app\<lparr>content_text := [32, 10]\<rparr>"]
  by (simp add: fresh_app_def py_def isspace_def)

text \<open>
  C6 as the specification words it fails for an editor that is not empty but blank: with
  one space in the editor the fragment is appended without a separator.
\<close>

theorem append_text_blank_counterexample:
  "content_text (fresh_app\<lparr>content_text := py '' ''\<rparr>) \<noteq> [] \<and>
   content_text (append_text (py ''world'') (fresh_app\<lparr>content_text := py '' ''\<rparr>)) =
     py '' world'' \<and>
   py '' world'' \<noteq> py '' '' @ py '' '' @ py ''world''"
  by (simp add: append_text_def Let_def strip_def isspace_def py_def)

text \<open>
  C1, as the code has it. A phrase for which recognition raises \<open>UnknownValueError\<close>
  adds nothing to the editor. A phrase for which it raises any other exception \<open>e\<close> adds
  the fragment \<^verbatim>\<open>[error: e]\<close>. In both cases the phrases after it are delivered as
  usual. For three phrases on an empty editor, the first with a character that is not
  whitespace and the third not empty: when the second is not understood the editor ends
  with fragments 1 and 3, and when the second fails with \<open>e\<close> it ends with fragment 1,
  \<^verbatim>\<open>[error: e]\<close> and fragment 3, each separated by one space.
\<close>

theorem listen_failed_segment:
  "listen (xs @ UnknownValueError # ys) a = listen (xs @ ys) a \<and>
   listen (xs @ OtherException e # ys) a =
     listen ys (append_text (py ''[error: '' @ e @ py '']'') (listen xs a)) \<and>
   ((\<exists>c\<in>set f1. \<not> isspace c) \<and> f3 \<noteq> [] \<and> content_text a = [] \<longrightarrow>
      content_text (listen [Recognized f1, UnknownValueError, Recognized f3] a) =
        f1 @ py '' '' @ f3 \<and>
      content_text (listen [Recognized f1, OtherException e, Recognized f3] a) =
        f1 @ py '' '' @ py ''[error: '' @ e @ py '']'' @ py '' '' @ f3)"
proof (intro conjI impI)
  show "listen (xs @ UnknownValueError # ys) a = listen (xs @ ys) a"
    by (simp add: listen_append callback_unknown)
  show "listen (xs @ OtherException e # ys) a =
     listen ys (append_text (py ''[error: '' @ e @ py '']'') (listen xs a))"
    by (simp add: listen_append callback_other)
next
  assume h: "(\<exists>c\<in>set f1. \<not> isspace c) \<and> f3 \<noteq> [] \<and> content_text a = []"
  then have f1: "f1 \<noteq> []" and f3: "f3 \<noteq> []" and e: "content_text a = []"
    by auto
  from h have ns: "\<not> (\<forall>c\<in>set f1. isspace c)"
    by blast
  from e have 1: "content_text (append_text f1 a) = f1"
    by (simp add: content_append_text)
  have 2: "content_text (append_text f3 (append_text f1 a)) = f1 @ py '' '' @ f3"
    using ns by (simp only: content_append_text [of f3] 1 if_False)
  have 3: "content_text (append_text (py ''[error: '' @ e @ py '']'') (append_text f1 a)) =
      f1 @ py '' '' @ py ''[error: '' @ e @ py '']''"
    using ns by (simp only: content_append_text [of "py ''[error: '' @ e @ py '']''"] 1 if_False)
  have 4: "\<not> (\<forall>c\<in>set (f1 @ py '' '' @ py ''[error: '' @ e @ py '']''). isspace c)"
    using ns by auto
  have 5: "content_text (append_text f3 (append_text (py ''[error: '' @ e @ py '']'')
        (append_text f1 a))) = (f1 @ py '' '' @ py ''[error: '' @ e @ py '']'') @ py '' '' @ f3"
    using 4 by (simp only: content_append_text [of f3] 3 if_False)
  show "content_text (listen [Recognized f1, UnknownValueError, Recognized f3] a) =
        f1 @ py '' '' @ f3"
    using f1 f3 2 by (simp add: callback_recognized callback_unknown)
  show "content_text (listen [Recognized f1, OtherException e, Recognized f3] a) =
        f1 @ py '' '' @ py ''[error: '' @ e @ py '']'' @ py '' '' @ f3"
    using f1 f3 5 by (simp add: callback_recognized callback_other)
qed

theorem listen_failed_segment_witness:
  "content_text (listen [Recognized (py ''hello''), UnknownValueError, Recognized (py ''world'')]
      fresh_app) = py ''hello world'' \<and>
   content_text (listen [Recognized (py ''hello''), OtherException (py ''timed out''),
      Recognized (py ''world'')] fresh_app) = py ''hello [error: timed out] world''"
proof -
  have h: "(\<exists>c\<in>set (py ''hello''). \<not> isspace c) \<and> py ''world'' \<noteq> [] \<and> content_text fresh_app = []"
    by (simp add: py_def isspace_def fresh_app_def)
  from listen_failed_segment [of "[]" "[]" fresh_app "py ''timed out''" "py ''hello''" "py ''world''"] h
  have "content_text (listen [Recognized (py ''hello''), UnknownValueError, Recognized (py ''world'')]
      fresh_app) = py ''hello'' @ py '' '' @ py ''world'' \<and>
   content_text (listen [Recognized (py ''hello''), OtherException (py ''timed out''),
      Recognized (py ''world'')] fresh_app) =
      py ''hello'' @ py '' '' @ py ''[error: '' @ py ''timed out'' @ py '']'' @ py '' '' @ py ''world''"
    by blast
  then show ?thesis by (simp add: py_def)
qed

text \<open>
  C1 as the specification words it fails when recognition of the second of three
  phrases raises an exception other than \<open>UnknownValueError\<close>: the editor then holds the
  error text between fragments 1 and 3.
\<close>

theorem listen_error_counterexample:
  "content_text (listen [Recognized (py ''hello''), OtherException (py ''timed out''),
      Recognized (py ''world'')] fresh_app) = py ''hello [error: timed out] world'' \<and>
   py ''hello [error: timed out] world'' \<noteq> py ''hello world''"
  by (simp add: callback_def append_text_def Let_def strip_def isspace_def py_def fresh_app_def)

section \<open>Saving\<close>

text \<open>
  C5, as the code has it. When the title entry is empty or blank and the editor holds a
  character that is not whitespace, \<open>save_note\<close> stores as content the editor text
  without its leading and trailing whitespace, and as title the first line of that
  stripped content, cut to at most 60 characters. With no current note this is a new
  note (whenever the table has an id left), otherwise it is the current note, which
  keeps its \<open>created_at\<close>.
\<close>

theorem save_note_default_title:
  assumes "\<forall>c\<in>set (title_entry a). isspace c"
    and "\<exists>c\<in>set (content_text a). \<not> isspace c"
  shows "(current_note_id a = None \<and> next_rowid (db a) \<le> MAX_ROWID \<longrightarrow>
            (\<exists>a'. save_note now a = Inr a' \<and>
               current_note_id a' = Some (next_rowid (db a)) \<and>
               get_note_by_id (db a') (next_rowid (db a)) =
                 Some \<lparr>note_id = next_rowid (db a),
                       title = take 60 (takeWhile (\<lambda>x. \<not> is_linebreak x) (strip (content_text a))),
                       content = strip (content_text a),
                       tags = strip (tags_entry a),
                       created_at = now\<rparr>)) \<and>
         (\<forall>i r. current_note_id a = Some i \<and> get_note_by_id (db a) i = Some r \<longrightarrow>
            (\<exists>a'. save_note now a = Inr a' \<and>
               current_note_id a' = Some i \<and>
               get_note_by_id (db a') i =
                 Some \<lparr>note_id = i,
                       title = take 60 (takeWhile (\<lambda>x. \<not> is_linebreak x) (strip (content_text a))),
                       content = strip (content_text a),
                       tags = strip (tags_entry a),
                       created_at = created_at r\<rparr>)) \<and>
         length (take 60 (takeWhile (\<lambda>x. \<not> is_linebreak x) (strip (content_text a)))) \<le> 60"
proof (intro conjI impI allI)
  let ?body = "strip (content_text a)"
  let ?ttl = "take 60 (takeWhile (\<lambda>x. \<not> is_linebreak x) ?body)"
  from assms(1) have t: "strip (title_entry a) = []"
    by (simp add: strip_Nil_iff)
  from assms(2) have b: "?body \<noteq> []"
    by (simp add: strip_Nil_iff)
  have c: "strip (content_text a @ py [CHR 0x0A]) = ?body"
    by (rule strip_newline)
  from b have dt: "default_title ?body = Inr ?ttl"
    by (simp add: default_title_first_line strip_strip)
  {
    assume h: "current_note_id a = None \<and> next_rowid (db a) \<le> MAX_ROWID"
    then obtain d' where e:
      "add_note now (db a) ?ttl ?body (strip (tags_entry a)) = Inr (next_rowid (db a), d')"
      using add_note_returns by blast
    from get_added_note [OF e]
    have g: "get_note_by_id d' (next_rowid (db a)) =
        Some \<lparr>note_id = next_rowid (db a), title = ?ttl, content = ?body,
              tags = strip (tags_entry a), created_at = now\<rparr>" .
    from h e have s: "save_note now a =
        Inr (load_notes None (a\<lparr>db := d', current_note_id := Some (next_rowid (db a)),
                                status_var := py ''Saved new note''\<rparr>))"
      by (simp add: save_note_def Let_def t b c dt)
    show "\<exists>a'. save_note now a = Inr a' \<and>
               current_note_id a' = Some (next_rowid (db a)) \<and>
               get_note_by_id (db a') (next_rowid (db a)) =
                 Some \<lparr>note_id = next_rowid (db a), title = ?ttl, content = ?body,
                       tags = strip (tags_entry a), created_at = now\<rparr>"
      using s g by (simp add: db_load_notes current_load_notes)
  }
  {
    fix i r
    assume h: "current_note_id a = Some i \<and> get_note_by_id (db a) i = Some r"
    then have g: "get_note_by_id (update_note (db a) i ?ttl ?body (strip (tags_entry a))) i =
        Some \<lparr>note_id = i, title = ?ttl, content = ?body,
              tags = strip (tags_entry a), created_at = created_at r\<rparr>"
      by (simp add: get_updated_note)
    from h have s: "save_note now a =
        Inr (load_notes None
               (a\<lparr>db := update_note (db a) i ?ttl ?body (strip (tags_entry a)),
                  status_var := py ''Updated note''\<rparr>))"
      by (simp add: save_note_def Let_def t b c dt)
    show "\<exists>a'. save_note now a = Inr a' \<and>
               current_note_id a' = Some i \<and>
               get_note_by_id (db a') i =
                 Some \<lparr>note_id = i, title = ?ttl, content = ?body,
                       tags = strip (tags_entry a), created_at = created_at r\<rparr>"
      using s g h by (simp add: db_load_notes current_load_notes)
  }
  show "length ?ttl \<le> 60" by simp
qed


theorem save_note_default_title_witness:
  "content_text (listen [Recognized (py ''hello''), Recognized (py ''world'')] fresh_app) =
     py ''hello world'' \<and>
   (\<exists>a'. save_note (py ''2024-05-02 08:00:00'')
           (listen [Recognized (py ''hello''), Recognized (py ''world'')] fresh_app) = Inr a' \<and>
         current_note_id a' = Some 1 \<and>
         get_note_by_id (db a') 1 =
           Some \<lparr>note_id = 1, title = py ''hello world'', content = py ''hello world'',
                 tags = [], created_at = py ''2024-05-02 08:00:00''\<rparr>)"
proof -
  let ?a = "listen [Recognized (py ''hello''), Recognized (py ''world'')] fresh_app"
  have a: "?a = fresh_app\<lparr>content_text := py ''hello world'',
                           status_var := py ''Transcribed a phrase''\<rparr>"
    by (simp add: callback_def append_text_def Let_def strip_def isspace_def py_def fresh_app_def)
  have 1: "\<forall>c\<in>set (title_entry ?a). isspace c"
    unfolding a by (simp add: fresh_app_def)
  have 2: "\<exists>c\<in>set (content_text ?a). \<not> isspace c"
    unfolding a by (simp add: py_def isspace_def)
  have 3: "current_note_id ?a = None \<and> next_rowid (db ?a) \<le> MAX_ROWID"
    unfolding a by (simp add: fresh_app_def empty_db_def next_rowid_def max_rowid_def MAX_ROWID_def)
  have 4: "next_rowid (db ?a) = 1"
    unfolding a by (simp add: fresh_app_def empty_db_def next_rowid_def max_rowid_def)
  have 5: "strip (content_text ?a) = py ''hello world''"
    unfolding a by (simp add: strip_def isspace_def py_def)
  have 6: "take 60 (takeWhile (\<lambda>x. \<not> is_linebreak x) (py ''hello world'')) = py ''hello world''"
    by (simp add: is_linebreak_def py_def)
  have 7: "strip (tags_entry ?a) = []"
    unfolding a by (simp add: fresh_app_def strip_def)
  from save_note_default_title [OF 1 2, of "py ''2024-05-02 08:00:00''"] 3
  have "\<exists>a'. save_note (py ''2024-05-02 08:00:00'') ?a = Inr a' \<and>
          current_note_id a' = Some (next_rowid (db ?a)) \<and>
          get_note_by_id (db a') (next_rowid (db ?a)) =
            Some \<lparr>note_id = next_rowid (db ?a),
                  title = take 60 (takeWhile (\<lambda>x. \<not> is_linebreak x) (strip (content_text ?a))),
                  content = strip (content_text ?a),
                  tags = strip (tags_entry ?a),
                  created_at = py ''2024-05-02 08:00:00''\<rparr>"
    by blast
  then have "\<exists>a'. save_note (py ''2024-05-02 08:00:00'') ?a = Inr a' \<and>
          current_note_id a' = Some 1 \<and>
          get_note_by_id (db a') 1 =
            Some \<lparr>note_id = 1, title = py ''hello world'', content = py ''hello world'',
                  tags = [], created_at = py ''2024-05-02 08:00:00''\<rparr>"
    by (simp only: 4 5 6 7)
  moreover have "content_text ?a = py ''hello world''"
    unfolding a by simp
  ultimately show ?thesis by blast
qed

text \<open>
  C5 as the specification words it (the stored content is the buffer content) fails for
  an editor whose text begins or ends with whitespace: the stored content and the title
  are taken from the stripped text.
\<close>

theorem save_note_strips_counterexample:
  "save_note (py ''2024-05-02 08:00:00'') (fresh_app\<lparr>content_text := 10 # py ''hello ''\<rparr>) =
     Inr (fresh_app
            \<lparr>content_text := 10 # py ''hello '',
             db := \<lparr>rows = [\<lparr>note_id = 1, title = py ''hello'', content = py ''hello'',
                              tags = [], created_at = py ''2024-05-02 08:00:00''\<rparr>],
                    autoinc_seq = 1\<rparr>,
             current_note_id := Some 1,
             status_var := py ''Saved new note'',
             notes_map := [1]\<rparr>) \<and>
   py ''hello'' \<noteq> content_text (fresh_app\<lparr>content_text := 10 # py ''hello ''\<rparr>) \<and>
   py ''hello'' \<noteq> take 60 (takeWhile (\<lambda>x. \<not> is_linebreak x)
                      (content_text (fresh_app\<lparr>content_text := 10 # py ''hello ''\<rparr>)))"
  by (simp add: save_note_def default_title_def splitlines_def add_note_def load_notes_def
      get_all_notes_def order_by_created_at_desc_def next_rowid_def max_rowid_def MAX_ROWID_def
      strip_def isspace_def is_linebreak_def Let_def py_def fresh_app_def empty_db_def)

text \<open>
  C10. When the editor is empty or holds only whitespace, \<open>save_note\<close> returns with
  the whole state as it was: no note is created and none is updated.
\<close>

theorem save_note_blank_content:
  assumes "\<forall>c\<in>set (content_text a). isspace c"
  shows "save_note now a = Inr a"
proof -
  from assms have "strip (content_text a @ py [CHR 0x0A]) = []"
    by (simp add: strip_Nil_iff py_newline isspace_newline)
  then show ?thesis
    by (simp add: save_note_def Let_def)
qed

theorem save_note_blank_content_witness:
  "isspace 32 \<and> isspace 9 \<and> isspace 10 \<and>
   save_note (py ''2024-05-02 08:00:00'') (sample_app\<lparr>content_text := [32, 9, 10]\<rparr>) =
     Inr (sample_app\<lparr>content_text := [32, 9, 10]\<rparr>)"
proof -
  have s: "isspace 32 \<and> isspace 9 \<and> isspace 10"
    by (simp add: isspace_def)
  then have h: "\<forall>c\<in>set (content_text (sample_app\<lparr>content_text := [32, 9, 10]\<rparr>)). isspace c"
    by simp
  from save_note_blank_content [OF h] s show ?thesis by blast
qed

end
